theory Spec2Isabelle
  imports Main
begin

section \<open>Merge layers of Lasagne: \<^verbatim>\<open>lasagne/layers/merge.py\<close>\<close>

text \<open>
  The module defines two layers with several inputs: \<^verbatim>\<open>ConcatLayer\<close>, which joins its
  inputs along one axis, and \<^verbatim>\<open>ElemwiseSumLayer\<close>, which adds them up with one
  coefficient per input. Shapes are Python tuples of integers, indexed the Python way
  (a negative index counts from the end, an index out of range raises).
\<close>

subsection \<open>Errors and Python indexing\<close>

text \<open>
  \<open>IndexError\<close> is Python's own exception for an index out of range. The two
  \<^verbatim>\<open>ValueError\<close>s of the module are kept apart by their raise site:
  \<open>CoeffsMismatch m n\<close> is
  \<^verbatim>\<open>ValueError("Mismatch: got %d coeffs for %d input_layers" % (m, n))\<close> and
  \<open>ShapesMismatch\<close> is \<^verbatim>\<open>ValueError("Mismatch: not all input shapes are the same")\<close>.
\<close>

datatype error = IndexError | CoeffsMismatch nat nat | ShapesMismatch

text \<open>The position a Python index denotes in a sequence of length \<open>n\<close>, if any.\<close>

definition py_norm :: "nat \<Rightarrow> int \<Rightarrow> nat option" where
  "py_norm n i =
     (if 0 \<le> i \<and> i < int n then Some (nat i)
      else if - int n \<le> i \<and> i < 0 then Some (nat (i + int n))
      else None)"

text \<open>\<^verbatim>\<open>xs[i]\<close> as an expression and \<^verbatim>\<open>xs[i] = v\<close> as a statement on a list.\<close>

definition py_getitem :: "'a list \<Rightarrow> int \<Rightarrow> error + 'a" where
  "py_getitem xs i =
     (case py_norm (length xs) i of None \<Rightarrow> Inl IndexError | Some k \<Rightarrow> Inr (xs ! k))"

definition py_setitem :: "'a list \<Rightarrow> int \<Rightarrow> 'a \<Rightarrow> error + 'a list" where
  "py_setitem xs i v =
     (case py_norm (length xs) i of None \<Rightarrow> Inl IndexError | Some k \<Rightarrow> Inr (xs[k := v]))"

subsection \<open>The layer classes\<close>

text \<open>
  Modelled from the spec: the base class \<^verbatim>\<open>MultipleInputsLayer\<close> of both layers
  (\<^verbatim>\<open>lasagne/layers/base.py\<close>, a module of this repository whose source is not
  available). In the specification's data model a layer owns its list of upstream layers,
  so the base constructor is taken to store that list and to do nothing else. The
  upstream layers themselves are objects of the surrounding framework; their type is left
  open.
\<close>

record 'l MultipleInputsLayer =
  input_layers :: "'l list"

record 'l ConcatLayer = "'l MultipleInputsLayer" +
  axis :: int

record ('l, 'a) ElemwiseSumLayer = "'l MultipleInputsLayer" +
  coeffs :: "'a list"

type_synonym shape = "int list"

subsection \<open>\<^verbatim>\<open>ConcatLayer\<close>: shapes\<close>

text \<open>\<^verbatim>\<open>__init__(self, input_layers, axis=1)\<close>\<close>

definition ConcatLayer_init :: "'l list \<Rightarrow> int \<Rightarrow> 'l ConcatLayer" where
  "ConcatLayer_init layers ax = \<lparr>input_layers = layers, axis = ax\<rparr>"

text \<open>
  \<^verbatim>\<open>sizes = [input_shape[self.axis] for input_shape in input_shapes]\<close>: the comprehension
  stops at the first shape the axis is out of range for.
\<close>

fun axis_sizes :: "int \<Rightarrow> shape list \<Rightarrow> error + int list" where
  "axis_sizes ax [] = Inr []"
| "axis_sizes ax (input_shape # rest) =
     (case py_getitem input_shape ax of
        Inl e \<Rightarrow> Inl e
      | Inr n \<Rightarrow> (case axis_sizes ax rest of Inl e \<Rightarrow> Inl e | Inr ns \<Rightarrow> Inr (n # ns)))"

definition ConcatLayer_get_output_shape_for :: "'l ConcatLayer \<Rightarrow> shape list \<Rightarrow> error + shape" where
  "ConcatLayer_get_output_shape_for self input_shapes =
     (case axis_sizes (axis self) input_shapes of
        Inl e \<Rightarrow> Inl e
      | Inr sizes \<Rightarrow>
          (case py_getitem input_shapes 0 of
             Inl e \<Rightarrow> Inl e
           | Inr first \<Rightarrow> py_setitem first (axis self) (sum_list sizes)))"

subsection \<open>\<^verbatim>\<open>ElemwiseSumLayer\<close>: construction and shapes\<close>

text \<open>
  The constructor's \<^verbatim>\<open>coeffs\<close> argument (1 when left out) is either a list
  (\<^verbatim>\<open>isinstance(coeffs, list)\<close>) or anything else, which is taken as one coefficient for
  every input.
\<close>

datatype 'a coeffs_arg = CoeffList "'a list" | CoeffScalar 'a

definition ElemwiseSumLayer_init ::
  "'l list \<Rightarrow> 'a coeffs_arg \<Rightarrow> error + ('l, 'a) ElemwiseSumLayer" where
  "ElemwiseSumLayer_init layers arg =
     (case arg of
        CoeffList cs \<Rightarrow>
          (if length cs \<noteq> length layers
           then Inl (CoeffsMismatch (length cs) (length layers))
           else Inr \<lparr>input_layers = layers, coeffs = cs\<rparr>)
      | CoeffScalar c \<Rightarrow>
          Inr \<lparr>input_layers = layers, coeffs = replicate (length layers) c\<rparr>)"

text \<open>
  \<^verbatim>\<open>any(shape != input_shapes[0] for shape in input_shapes)\<close> reads \<^verbatim>\<open>input_shapes[0]\<close>
  only when there is a shape to compare, so an empty list passes the test and the
  \<^verbatim>\<open>return input_shapes[0]\<close> raises.
\<close>

definition ElemwiseSumLayer_get_output_shape_for ::
  "('l, 'a) ElemwiseSumLayer \<Rightarrow> shape list \<Rightarrow> error + shape" where
  "ElemwiseSumLayer_get_output_shape_for self input_shapes =
     (case input_shapes of
        [] \<Rightarrow> Inl IndexError
      | first # _ \<Rightarrow>
          (if list_ex (\<lambda>shape. shape \<noteq> first) input_shapes then Inl ShapesMismatch
           else Inr first))"

subsection \<open>Preconditions on shape lists\<close>

text \<open>
  The invariant of \<^verbatim>\<open>ConcatLayer\<close>: the axis denotes a dimension of every upstream shape.
\<close>

definition axis_valid :: "int \<Rightarrow> shape list \<Rightarrow> bool" where
  "axis_valid ax input_shapes = list_all (\<lambda>s. py_norm (length s) ax \<noteq> None) input_shapes"

text \<open>
  A non-empty list of shapes of one rank, for which the axis denotes a dimension, and which
  agree with the first shape at every other dimension.
\<close>

definition agree_except :: "int \<Rightarrow> shape list \<Rightarrow> bool" where
  "agree_except ax input_shapes =
     (case input_shapes of
        [] \<Rightarrow> False
      | first # rest \<Rightarrow>
          (case py_norm (length first) ax of
             None \<Rightarrow> False
           | Some k \<Rightarrow>
               list_all (\<lambda>s. length s = length first \<and>
                              list_all (\<lambda>i. i = k \<or> s ! i = first ! i) [0..<length first]) rest))"

subsection \<open>Tensors\<close>

text \<open>
  The inputs and outputs of \<^verbatim>\<open>get_output_for\<close> are tensors of the tensor library the
  module imports; the library is not part of the repository. A tensor is modelled by its
  shape and its elements. The elements form a nested array of numbers: \<open>Scalar x\<close> is an
  array of rank 0 and \<open>Arr ts\<close> lists the sub-arrays along the first axis.
  \<open>has_shape s a\<close> says that \<open>a\<close> is rectangular with the extents \<open>s\<close>, \<open>flat\<close> lists the
  elements in row-major order, \<open>tget a idx\<close> is the element at the index tuple \<open>idx\<close>, and
  \<open>rows a\<close> are the sub-arrays along the first axis.
\<close>

datatype 'a nested = Scalar 'a | Arr "'a nested list"

fun has_shape :: "nat list \<Rightarrow> 'a nested \<Rightarrow> bool" where
  "has_shape [] (Scalar x) = True"
| "has_shape (n # ns) (Arr ts) = (length ts = n \<and> list_all (has_shape ns) ts)"
| "has_shape _ _ = False"

primrec flat :: "'a nested \<Rightarrow> 'a list" where
  "flat (Scalar x) = [x]"
| "flat (Arr ts) = concat (map flat ts)"

fun tget :: "'a nested \<Rightarrow> nat list \<Rightarrow> 'a option" where
  "tget (Scalar x) [] = Some x"
| "tget (Arr ts) (i # idx) = (if i < length ts then tget (ts ! i) idx else None)"
| "tget _ _ = None"

fun rows :: "'a nested \<Rightarrow> 'a nested list" where
  "rows (Arr ts) = ts"
| "rows (Scalar x) = []"

text \<open>
  A tensor carries its shape, as the library's tensors do: the nesting alone does not
  tell the extents below an empty array, nor, then, the rank a negative axis counts from.
  A tensor is well formed when its elements have its shape.
\<close>

record 'a tensor =
  dims :: "nat list"
  elems :: "'a nested"

definition well_formed :: "'a tensor \<Rightarrow> bool" where
  "well_formed t = has_shape (dims t) (elems t)"


definition matrix :: "'a list list \<Rightarrow> 'a tensor" where
  "matrix xss =
     \<lparr>dims = [length xss, (case xss of [] \<Rightarrow> 0 | r # _ \<Rightarrow> length r)],
      elems = Arr (map (\<lambda>r. Arr (map Scalar r)) xss)\<rparr>"

text \<open>
  The library's arithmetic operators on tensors, as far as the module uses them:
  \<open>tensor_mul c t\<close> is \<^verbatim>\<open>t * c\<close> for a number \<open>c\<close>, and \<open>tensor_add a b\<close> is \<^verbatim>\<open>a + b\<close>.
  Both work element by element (\<open>tscale\<close> and \<open>tadd\<close> on the nested arrays); an array of
  rank 0 is broadcast against an array. On arrays of different extents the library raises
  or broadcasts when the expression is evaluated; the properties below concern operands
  of one shape only, and \<open>tadd\<close> is kept total by pairing the sub-arrays as far as both
  operands go.
\<close>

primrec tscale :: "'a::times \<Rightarrow> 'a nested \<Rightarrow> 'a nested" where
  "tscale c (Scalar x) = Scalar (x * c)"
| "tscale c (Arr ts) = Arr (map (tscale c) ts)"

function (sequential) tadd :: "'a::plus nested \<Rightarrow> 'a nested \<Rightarrow> 'a nested" where
  "tadd (Scalar x) (Scalar y) = Scalar (x + y)"
| "tadd (Scalar x) (Arr ys) = Arr (map (tadd (Scalar x)) ys)"
| "tadd (Arr xs) (Scalar y) = Arr (map (\<lambda>t. tadd t (Scalar y)) xs)"
| "tadd (Arr xs) (Arr ys) = Arr (map2 tadd xs ys)"
  by pat_completeness auto
termination
proof (relation "measure (\<lambda>(a, b). size a + size b)", goal_cases)
  case 1
  show ?case by simp
next
  case (2 x ys t)
  then show ?case
    using size_list_estimation' [of t ys "size t" size] by (simp add: less_Suc_eq_le)
next
  case (3 xs y t)
  then show ?case
    using size_list_estimation' [of t xs "size t" size] by (simp add: less_Suc_eq_le)
next
  case (4 xs ys p a b)
  then have "a \<in> set xs" "b \<in> set ys"
    by (auto dest: set_zip_leftD set_zip_rightD)
  then show ?case
    using size_list_estimation' [of a xs "size a" size] size_list_estimation' [of b ys "size b" size]
    by simp
qed

definition tensor_mul :: "'a::times \<Rightarrow> 'a tensor \<Rightarrow> 'a tensor" where
  "tensor_mul c t = \<lparr>dims = dims t, elems = tscale c (elems t)\<rparr>"

definition tensor_add :: "'a::plus tensor \<Rightarrow> 'a tensor \<Rightarrow> 'a tensor" where
  "tensor_add a b = \<lparr>dims = dims a, elems = tadd (elems a) (elems b)\<rparr>"

subsection \<open>\<^verbatim>\<open>ElemwiseSumLayer.get_output_for\<close>\<close>

text \<open>
  Python passes tensors by reference, and the loop of \<^verbatim>\<open>get_output_for\<close> uses the
  augmented assignments \<^verbatim>\<open>input *= coeff\<close> and \<^verbatim>\<open>output += input\<close> on the objects the
  caller handed in. What these do depends on the tensor class, which the module does not
  define. For a class with in-place operators (an array such as \<^verbatim>\<open>numpy.ndarray\<close>) the
  object the name refers to is overwritten and the name keeps referring to it. For a
  class without \<^verbatim>\<open>__imul__\<close> and \<^verbatim>\<open>__iadd__\<close> (the symbolic variables of the tensor
  library) Python evaluates \<^verbatim>\<open>input * coeff\<close> and \<^verbatim>\<open>output + input\<close>, which create new
  objects, and binds the local name to the result.

  The store is a list of tensor values; a reference is a position in it, and a new object
  is appended. The flag \<open>inplace\<close> says which kind of tensor class the objects have.
  References are assumed to denote objects of the store (\<open>r < length h\<close>).
\<close>

type_synonym 'a heap = "'a tensor list"

text \<open>\<^verbatim>\<open>x *= c\<close> and \<^verbatim>\<open>x += y\<close>: the new binding of \<open>x\<close> and the new store.\<close>

definition imul :: "bool \<Rightarrow> nat \<Rightarrow> 'a::times \<Rightarrow> 'a heap \<Rightarrow> nat \<times> 'a heap" where
  "imul inplace x c h =
     (if inplace then (x, h[x := tensor_mul c (h ! x)])
      else (length h, h @ [tensor_mul c (h ! x)]))"

definition iadd :: "bool \<Rightarrow> nat \<Rightarrow> nat \<Rightarrow> 'a::plus heap \<Rightarrow> nat \<times> 'a heap" where
  "iadd inplace x y h =
     (if inplace then (x, h[x := tensor_add (h ! x) (h ! y)])
      else (length h, h @ [tensor_add (h ! x) (h ! y)]))"

text \<open>
  The loop over \<^verbatim>\<open>zip(self.coeffs, inputs)\<close>, with the local variable \<^verbatim>\<open>output\<close> as
  accumulator (\<open>None\<close> is Python's \<^verbatim>\<open>None\<close>): \<^verbatim>\<open>if coeff != 1: input *= coeff\<close>, then
  \<^verbatim>\<open>output += input\<close> when there is an output already and \<^verbatim>\<open>output = input\<close> otherwise,
  which makes \<^verbatim>\<open>output\<close> refer to the object \<^verbatim>\<open>input\<close> refers to.
\<close>

fun sum_loop_obj ::
  "bool \<Rightarrow> nat option \<Rightarrow> ('a::{one,times,plus} \<times> nat) list \<Rightarrow> 'a heap \<Rightarrow> nat option \<times> 'a heap" where
  "sum_loop_obj inplace output [] h = (output, h)"
| "sum_loop_obj inplace output ((coeff, input) # rest) h =
     (let (input', h1) = (if coeff \<noteq> 1 then imul inplace input coeff h else (input, h));
          (output', h2) = (case output of
                             Some out \<Rightarrow> iadd inplace out input' h1
                           | None \<Rightarrow> (input', h1))
      in sum_loop_obj inplace (Some output') rest h2)"

definition ElemwiseSumLayer_get_output_for_obj ::
  "bool \<Rightarrow> ('l, 'a::{one,times,plus}) ElemwiseSumLayer \<Rightarrow> nat list \<Rightarrow> 'a heap \<Rightarrow>
     nat option \<times> 'a heap" where
  "ElemwiseSumLayer_get_output_for_obj inplace self inputs h =
     sum_loop_obj inplace None (zip (coeffs self) inputs) h"

text \<open>The value a returned reference denotes (\<open>None\<close> for Python's \<^verbatim>\<open>None\<close>).\<close>

definition deref :: "'a heap \<Rightarrow> nat option \<Rightarrow> 'a tensor option" where
  "deref h r = map_option ((!) h) r"

text \<open>
  The same loop on tensor values instead of objects: the augmented assignments bind the
  local names to \<^verbatim>\<open>input * coeff\<close> and \<^verbatim>\<open>output + input\<close>. This is what the method
  computes for a tensor class without in-place operators, and for distinct input objects
  of a class with them (lemmas \<open>elemwise_sum_obj_fresh\<close> and \<open>elemwise_sum_obj_inplace\<close>
  below); it is not what the method computes when one object with in-place operators is
  passed more than once.
\<close>

fun sum_loop ::
  "'a::{one,times,plus} tensor option \<Rightarrow> ('a \<times> 'a tensor) list \<Rightarrow> 'a tensor option" where
  "sum_loop output [] = output"
| "sum_loop output ((coeff, input) # rest) =
     (let input' = (if coeff \<noteq> 1 then tensor_mul coeff input else input);
          output' = (case output of Some out \<Rightarrow> tensor_add out input' | None \<Rightarrow> input')
      in sum_loop (Some output') rest)"

definition ElemwiseSumLayer_get_output_for ::
  "('l, 'a::{one,times,plus}) ElemwiseSumLayer \<Rightarrow> 'a tensor list \<Rightarrow> 'a tensor option" where
  "ElemwiseSumLayer_get_output_for self inputs = sum_loop None (zip (coeffs self) inputs)"

text \<open>
  The specification's reading of the method: the sum of \<^verbatim>\<open>coeff_i * input_i\<close> over all
  \<open>i\<close> in list order, every product carried out; nothing for no inputs.
\<close>

fun weighted_sum :: "'a::{times,plus} list \<Rightarrow> 'a tensor list \<Rightarrow> 'a tensor option" where
  "weighted_sum (c # cs) (x # xs) =
     Some (foldl tensor_add (tensor_mul c x) (map2 tensor_mul cs xs))"
| "weighted_sum _ _ = None"

subsection \<open>\<^verbatim>\<open>ConcatLayer.get_output_for\<close>\<close>

text \<open>
  Modelled from the spec: the joining of arrays along one dimension, which
  \<^verbatim>\<open>utils.concatenate\<close> (\<^verbatim>\<open>lasagne/utils.py\<close>, a module of this repository whose source
  is not available) performs. The specification says of it only that it returns the
  concatenation of the given tensors along the axis, for tensors that agree on every other
  dimension. \<open>concat_along k\<close> joins along dimension \<open>k\<close>: along dimension 0 the rows of
  the inputs follow one another in list order, and along a deeper dimension the rows at
  each position of the first axis are joined.
\<close>

primrec concat_along :: "nat \<Rightarrow> 'a nested list \<Rightarrow> 'a nested" where
  "concat_along 0 ts = Arr (concat (map rows ts))"
| "concat_along (Suc k) ts =
     Arr (map (\<lambda>j. concat_along k (map (\<lambda>t. rows t ! j) ts)) [0..<length (rows (hd ts))])"

text \<open>
  Modelled from the spec: \<^verbatim>\<open>utils.concatenate(tensor_list, axis)\<close>, missing as said
  above. The axis identifies a dimension of the tensors the way \<^verbatim>\<open>self.axis\<close> does in
  the layer's shape function, so a negative axis counts from the last dimension. For
  well-formed tensors that agree on every other dimension the result is their join along
  that dimension; otherwise (no tensors, an axis that is no dimension, tensors that
  disagree elsewhere) the specification promises no result, which is \<open>None\<close> here.
\<close>

definition concatenate :: "'a tensor list \<Rightarrow> int \<Rightarrow> 'a tensor option" where
  "concatenate tensor_list ax =
     (if list_all well_formed tensor_list \<and>
         agree_except ax (map (\<lambda>t. map int (dims t)) tensor_list)
      then (case py_norm (length (dims (hd tensor_list))) ax of
              None \<Rightarrow> None
            | Some k \<Rightarrow>
                Some \<lparr>dims = (dims (hd tensor_list))
                               [k := sum_list (map (\<lambda>t. dims t ! k) tensor_list)],
                      elems = concat_along k (map elems tensor_list)\<rparr>)
      else None)"

text \<open>\<^verbatim>\<open>return utils.concatenate(inputs, axis=self.axis)\<close>\<close>

definition ConcatLayer_get_output_for :: "'l ConcatLayer \<Rightarrow> 'a tensor list \<Rightarrow> 'a tensor option" where
  "ConcatLayer_get_output_for self inputs = concatenate inputs (axis self)"

section \<open>Properties\<close>

subsection \<open>Python indexing\<close>

lemma py_norm_less: "py_norm n i = Some k \<Longrightarrow> k < n"
  by (auto simp: py_norm_def split: if_splits)

lemma py_getitem_head: "py_getitem (x # xs) 0 = Inr x"
  by (simp add: py_getitem_def py_norm_def)

subsection \<open>\<^verbatim>\<open>ConcatLayer.get_output_shape_for\<close>\<close>

lemma axis_sizes_valid:
  "axis_valid ax input_shapes \<Longrightarrow>
   axis_sizes ax input_shapes = Inr (map (\<lambda>s. s ! the (py_norm (length s) ax)) input_shapes)"
  by (induction input_shapes) (auto simp: axis_valid_def py_getitem_def)

lemma agree_except_valid: "agree_except ax input_shapes \<Longrightarrow> axis_valid ax input_shapes"
  by (auto simp: agree_except_def axis_valid_def list_all_iff split: list.splits option.splits)

lemma get_output_shape_for_valid:
  assumes "input_shapes \<noteq> []" "axis_valid (axis self) input_shapes"
  shows "ConcatLayer_get_output_shape_for self input_shapes =
     Inr ((hd input_shapes)[the (py_norm (length (hd input_shapes)) (axis self)) :=
        sum_list (map (\<lambda>s. s ! the (py_norm (length s) (axis self))) input_shapes)])"
proof -
  from assms obtain first rest where shapes: "input_shapes = first # rest"
    by (cases input_shapes) auto
  from assms shapes obtain k where k: "py_norm (length first) (axis self) = Some k"
    by (auto simp: axis_valid_def)
  show ?thesis
    using assms(2) k
    by (simp add: ConcatLayer_get_output_shape_for_def axis_sizes_valid py_getitem_head
          py_setitem_def shapes del: axis_sizes.simps)
qed

text \<open>
  C1. For a non-empty list of input shapes that agree on every dimension except the layer's
  axis, \<^verbatim>\<open>ConcatLayer.get_output_shape_for\<close> returns a shape of the first input's rank
  whose size along the axis is the sum of the inputs' sizes along the axis and whose other
  dimensions are those of the first input.
\<close>

theorem concat_output_shape_sum:
  assumes "agree_except (axis self) input_shapes"
  shows "\<exists>k out. py_norm (length (hd input_shapes)) (axis self) = Some k \<and>
     ConcatLayer_get_output_shape_for self input_shapes = Inr out \<and>
     length out = length (hd input_shapes) \<and>
     out ! k = sum_list (map (\<lambda>s. s ! k) input_shapes) \<and>
     (\<forall>i<length out. i \<noteq> k \<longrightarrow> out ! i = hd input_shapes ! i)"
proof -
  from assms obtain first rest k where
    shapes: "input_shapes = first # rest" and k: "py_norm (length first) (axis self) = Some k"
    and rest: "\<forall>s\<in>set rest. length s = length first"
    by (auto simp: agree_except_def list_all_iff split: list.splits option.splits)
  have "\<forall>s\<in>set input_shapes. py_norm (length s) (axis self) = Some k"
    using shapes k rest by auto
  then have "map (\<lambda>s. s ! the (py_norm (length s) (axis self))) input_shapes =
      map (\<lambda>s. s ! k) input_shapes"
    by simp
  then have "sum_list (map (\<lambda>s. s ! the (py_norm (length s) (axis self))) input_shapes) =
      sum_list (map (\<lambda>s. s ! k) input_shapes)"
    by (simp only:)
  moreover have "ConcatLayer_get_output_shape_for self input_shapes =
     Inr ((hd input_shapes)[the (py_norm (length (hd input_shapes)) (axis self)) :=
        sum_list (map (\<lambda>s. s ! the (py_norm (length s) (axis self))) input_shapes)])"
    using get_output_shape_for_valid [of input_shapes self] agree_except_valid [OF assms] shapes
    by blast
  ultimately have "ConcatLayer_get_output_shape_for self input_shapes =
      Inr (first[k := sum_list (map (\<lambda>s. s ! k) input_shapes)])"
    using shapes k by simp
  moreover have "k < length first"
    using k by (rule py_norm_less)
  ultimately show ?thesis
    using shapes k by simp
qed

theorem concat_output_shape_sum_witness:
  "agree_except 1 [[2, 3, 5], [2, 4, 5], [2, 1, 5]] \<and>
   ConcatLayer_get_output_shape_for (ConcatLayer_init [(), (), ()] 1)
     [[2, 3, 5], [2, 4, 5], [2, 1, 5]] = Inr [2, 8, 5]"
proof -
  have h: "agree_except (axis (ConcatLayer_init [(), (), ()] 1)) [[2, 3, 5], [2, 4, 5], [2, 1, 5]]"
    by (simp add: agree_except_def py_norm_def ConcatLayer_init_def)
  have "ConcatLayer_get_output_shape_for (ConcatLayer_init [(), (), ()] 1)
     [[2, 3, 5], [2, 4, 5], [2, 1, 5]] = Inr [2, 8, 5]"
    by (simp add: ConcatLayer_get_output_shape_for_def ConcatLayer_init_def py_getitem_def
          py_setitem_def py_norm_def)
  with h concat_output_shape_sum [OF h] show ?thesis
    by (simp add: ConcatLayer_init_def)
qed

text \<open>
  C8. \<^verbatim>\<open>ConcatLayer.get_output_shape_for\<close> does not compare the inputs outside the axis:
  for a non-empty list of shapes for each of which the axis is valid it returns the first
  shape with the entry at the axis replaced by the sum of the inputs' sizes along the
  axis, whatever the other dimensions (and ranks) of the inputs are.
\<close>

theorem concat_output_shape_unvalidated:
  assumes "input_shapes \<noteq> []" and "axis_valid (axis self) input_shapes"
  shows "\<exists>sizes k. axis_sizes (axis self) input_shapes = Inr sizes \<and>
     length sizes = length input_shapes \<and>
     (\<forall>j<length input_shapes. py_getitem (input_shapes ! j) (axis self) = Inr (sizes ! j)) \<and>
     py_norm (length (hd input_shapes)) (axis self) = Some k \<and>
     ConcatLayer_get_output_shape_for self input_shapes =
       Inr ((hd input_shapes)[k := sum_list sizes])"
proof -
  let ?sizes = "map (\<lambda>s. s ! the (py_norm (length s) (axis self))) input_shapes"
  have sizes: "axis_sizes (axis self) input_shapes = Inr ?sizes"
    using assms(2) by (rule axis_sizes_valid)
  have each: "py_getitem (input_shapes ! j) (axis self) = Inr (?sizes ! j)"
    if "j < length input_shapes" for j
  proof -
    from that have "input_shapes ! j \<in> set input_shapes" by simp
    with assms(2) have "py_norm (length (input_shapes ! j)) (axis self) \<noteq> None"
      by (simp add: axis_valid_def list_all_iff)
    with that show ?thesis
      by (auto simp: py_getitem_def)
  qed
  from assms have "hd input_shapes \<in> set input_shapes" by simp
  with assms(2) obtain k where k: "py_norm (length (hd input_shapes)) (axis self) = Some k"
    by (auto simp: axis_valid_def list_all_iff)
  show ?thesis
    using sizes each k get_output_shape_for_valid [OF assms] by simp
qed

theorem concat_output_shape_unvalidated_witness:
  "[[2, 3], [5, 4, 9]] \<noteq> ([] :: shape list) \<and> axis_valid (-1) [[2, 3], [5, 4, 9]] \<and>
   \<not> agree_except (-1) [[2, 3], [5, 4, 9]] \<and>
   ConcatLayer_get_output_shape_for (ConcatLayer_init [(), ()] (-1)) [[2, 3], [5, 4, 9]] =
     Inr [2, 12]"
proof -
  have h1: "[[2, 3], [5, 4, 9]] \<noteq> ([] :: shape list)" by simp
  have h2: "axis_valid (axis (ConcatLayer_init [(), ()] (-1))) [[2, 3], [5, 4, 9]]"
    by (simp add: axis_valid_def py_norm_def ConcatLayer_init_def)
  have "\<not> agree_except (-1) [[2, 3], [5, 4, 9]]"
    by (simp add: agree_except_def py_norm_def)
  moreover have "ConcatLayer_get_output_shape_for (ConcatLayer_init [(), ()] (-1))
      [[2, 3], [5, 4, 9]] = Inr [2, 12]"
    by (simp add: ConcatLayer_get_output_shape_for_def ConcatLayer_init_def py_getitem_def
          py_setitem_def py_norm_def)
  ultimately show ?thesis
    using h1 h2 concat_output_shape_unvalidated [OF h1 h2]
    by (simp add: ConcatLayer_init_def)
qed

text \<open>
  The empty list of shapes: the axis is valid for each of its (no) shapes, the
  comprehension yields no sizes, and \<^verbatim>\<open>input_shapes[0]\<close> raises \<^verbatim>\<open>IndexError\<close>.
\<close>

theorem concat_output_shape_unvalidated_counterexample:
  "axis_valid 1 [] \<and>
   ConcatLayer_get_output_shape_for (ConcatLayer_init ([] :: unit list) 1) [] = Inl IndexError"
  by (simp add: axis_valid_def ConcatLayer_get_output_shape_for_def py_getitem_def py_norm_def)

text \<open>
  C9. When the list of upstream shapes is not empty and the axis is valid for each of
  them, \<^verbatim>\<open>ConcatLayer.get_output_shape_for\<close> does not fail: each read
  \<^verbatim>\<open>input_shape[axis]\<close> and the write \<^verbatim>\<open>output_shape[axis] = ...\<close> is in range, and the
  result has the length of the first input shape.
\<close>

theorem concat_output_shape_total:
  assumes "input_shapes \<noteq> []" and "axis_valid (axis self) input_shapes"
  shows "(\<forall>s\<in>set input_shapes. \<exists>n. py_getitem s (axis self) = Inr n) \<and>
     (\<exists>out. py_setitem (hd input_shapes) (axis self) v = Inr out) \<and>
     (\<exists>out. ConcatLayer_get_output_shape_for self input_shapes = Inr out \<and>
        length out = length (hd input_shapes))"
proof -
  have reads: "\<forall>s\<in>set input_shapes. \<exists>n. py_getitem s (axis self) = Inr n"
    using assms(2) by (auto simp: axis_valid_def list_all_iff py_getitem_def)
  from assms have "hd input_shapes \<in> set input_shapes" by simp
  with assms(2) have "\<exists>out. py_setitem (hd input_shapes) (axis self) v = Inr out"
    by (auto simp: axis_valid_def list_all_iff py_setitem_def)
  with reads show ?thesis
    using get_output_shape_for_valid [OF assms] by simp
qed

theorem concat_output_shape_total_witness:
  "[[2, 3], [7, 4]] \<noteq> ([] :: shape list) \<and> axis_valid 0 [[2, 3], [7, 4]] \<and>
   (\<exists>out. ConcatLayer_get_output_shape_for (ConcatLayer_init [(), ()] 0) [[2, 3], [7, 4]] =
      Inr out \<and> length out = 2)"
proof -
  have h1: "[[2, 3], [7, 4]] \<noteq> ([] :: shape list)" by simp
  have h2: "axis_valid (axis (ConcatLayer_init [(), ()] 0)) [[2, 3], [7, 4]]"
    by (simp add: axis_valid_def py_norm_def ConcatLayer_init_def)
  show ?thesis
    using h1 h2 concat_output_shape_total [OF h1 h2]
    by (simp add: ConcatLayer_init_def numeral_2_eq_2)
qed

theorem concat_output_shape_total_counterexample:
  "axis_valid 0 [] \<and>
   ConcatLayer_get_output_shape_for (ConcatLayer_init ([] :: unit list) 0) [] = Inl IndexError"
  by (simp add: axis_valid_def ConcatLayer_get_output_shape_for_def py_getitem_def py_norm_def)

subsection \<open>\<^verbatim>\<open>ElemwiseSumLayer\<close>: construction and shapes\<close>

text \<open>
  C3. For a non-empty list of input shapes, \<^verbatim>\<open>ElemwiseSumLayer.get_output_shape_for\<close>
  returns the first shape when all shapes are equal and raises the shape-mismatch error
  when they are not; the layer's coefficients play no part.
\<close>

theorem elemwise_sum_output_shape:
  assumes "input_shapes \<noteq> []"
  shows "((\<forall>s\<in>set input_shapes. s = hd input_shapes) \<longrightarrow>
       ElemwiseSumLayer_get_output_shape_for self input_shapes = Inr (hd input_shapes)) \<and>
     (\<not> (\<forall>s\<in>set input_shapes. s = hd input_shapes) \<longrightarrow>
       ElemwiseSumLayer_get_output_shape_for self input_shapes = Inl ShapesMismatch) \<and>
     ((\<exists>out. ElemwiseSumLayer_get_output_shape_for self input_shapes = Inr out) =
       (\<forall>s\<in>set input_shapes. s = hd input_shapes)) \<and>
     ElemwiseSumLayer_get_output_shape_for (self\<lparr>coeffs := cs\<rparr>) input_shapes =
       ElemwiseSumLayer_get_output_shape_for self input_shapes"
  using assms
  by (cases input_shapes)
     (auto simp: ElemwiseSumLayer_get_output_shape_for_def list_ex_iff)

theorem elemwise_sum_output_shape_witness:
  "[[2, 3], [2, 3]] \<noteq> ([] :: shape list) \<and>
   ElemwiseSumLayer_get_output_shape_for \<lparr>input_layers = [(), ()], coeffs = [2, 1 :: int]\<rparr>
     [[2, 3], [2, 3]] = Inr [2, 3] \<and>
   ElemwiseSumLayer_get_output_shape_for \<lparr>input_layers = [(), ()], coeffs = [2, 1 :: int]\<rparr>
     [[2, 3], [2, 4]] = Inl ShapesMismatch"
proof -
  have h1: "[[2, 3], [2, 3]] \<noteq> ([] :: shape list)" and h2: "[[2, 3], [2, 4]] \<noteq> ([] :: shape list)"
    by simp_all
  show ?thesis
    using elemwise_sum_output_shape [OF h1, of "\<lparr>input_layers = [(), ()], coeffs = [2, 1 :: int]\<rparr>"]
      elemwise_sum_output_shape [OF h2, of "\<lparr>input_layers = [(), ()], coeffs = [2, 1 :: int]\<rparr>"]
    by simp
qed

text \<open>
  C4. Constructing an \<^verbatim>\<open>ElemwiseSumLayer\<close> with a list of coefficients raises the
  size-mismatch error exactly when the list's length differs from the number of input
  layers; the error is the constructor's own result.
\<close>

theorem elemwise_sum_init_mismatch:
  "((\<exists>e. ElemwiseSumLayer_init layers (CoeffList cs) = Inl e) = (length cs \<noteq> length layers)) \<and>
   (length cs \<noteq> length layers \<longrightarrow>
      ElemwiseSumLayer_init layers (CoeffList cs) =
        Inl (CoeffsMismatch (length cs) (length layers))) \<and>
   (length cs = length layers \<longrightarrow>
      ElemwiseSumLayer_init layers (CoeffList cs) = Inr \<lparr>input_layers = layers, coeffs = cs\<rparr>)"
  by (simp add: ElemwiseSumLayer_init_def)

theorem elemwise_sum_init_mismatch_witness:
  "ElemwiseSumLayer_init [(), ()] (CoeffList [2, 1, 5 :: int]) = Inl (CoeffsMismatch 3 2) \<and>
   ElemwiseSumLayer_init [(), ()] (CoeffList [2, 1 :: int]) =
     Inr \<lparr>input_layers = [(), ()], coeffs = [2, 1]\<rparr>"
  using elemwise_sum_init_mismatch [of "[(), ()]" "[2, 1, 5 :: int]"]
    elemwise_sum_init_mismatch [of "[(), ()]" "[2, 1 :: int]"]
  by simp

subsection \<open>Arithmetic on nested arrays\<close>

lemma flat_tscale: "flat (tscale c t) = map (\<lambda>x. x * c) (flat t)"
  by (induction t) (simp_all add: map_concat cong: map_cong)

lemma has_shape_tscale: "has_shape s t \<Longrightarrow> has_shape s (tscale c t)"
  by (induction s t rule: has_shape.induct) (auto simp: list_all_iff)

lemma length_flat: "has_shape s t \<Longrightarrow> length (flat t) = prod_list s"
proof (induction s t rule: has_shape.induct)
  case (2 n ns ts)
  then have "\<forall>t\<in>set ts. length (flat t) = prod_list ns"
    by (auto simp: list_all_iff)
  then have "map (length \<circ> flat) ts = replicate (length ts) (prod_list ns)"
    by (induction ts) auto
  with 2 show ?case
    by (simp add: length_concat sum_list_replicate)
qed simp_all

lemma flat_map2_tadd:
  assumes "length xs = length ys"
    and "\<forall>(x, y)\<in>set (zip xs ys). length (flat x) = length (flat y) \<and>
           flat (tadd x y) = map2 (+) (flat x) (flat y)"
  shows "concat (map flat (map2 tadd xs ys)) =
     map2 (+) (concat (map flat xs)) (concat (map flat ys))"
  using assms by (induction xs ys rule: list_induct2) (simp_all add: zip_append)

lemma tadd_same_shape:
  "has_shape s a \<Longrightarrow> has_shape s b \<Longrightarrow>
   has_shape s (tadd a b) \<and> flat (tadd a b) = map2 (+) (flat a) (flat b)"
proof (induction s arbitrary: a b)
  case Nil
  then show ?case
    by (cases a; cases b) simp_all
next
  case (Cons n ns)
  from Cons.prems obtain xs ys where ab: "a = Arr xs" "b = Arr ys"
    by (cases a; cases b) simp_all
  with Cons.prems have len: "length xs = n" "length ys = n"
    and xs: "\<forall>x\<in>set xs. has_shape ns x" and ys: "\<forall>y\<in>set ys. has_shape ns y"
    by (simp_all add: list_all_iff)
  have each: "has_shape ns (tadd x y) \<and> flat (tadd x y) = map2 (+) (flat x) (flat y) \<and>
      length (flat x) = length (flat y)"
    if "(x, y) \<in> set (zip xs ys)" for x y
  proof -
    from that have "x \<in> set xs" "y \<in> set ys"
      by (auto dest: set_zip_leftD set_zip_rightD)
    with xs ys have "has_shape ns x" "has_shape ns y" by auto
    then show ?thesis
      using Cons.IH [of x y] by (simp add: length_flat)
  qed
  have "has_shape (n # ns) (tadd a b)"
    using len each by (auto simp: ab list_all_iff)
  moreover have "flat (tadd a b) = map2 (+) (flat a) (flat b)"
    using flat_map2_tadd [of xs ys] len each by (auto simp: ab)
  ultimately show ?case by simp
qed

lemma foldl_tadd_same_shape:
  fixes acc :: "'a :: comm_monoid_add nested"
  assumes "has_shape s acc" and "\<forall>t\<in>set ts. has_shape s t"
  shows "has_shape s (foldl tadd acc ts) \<and>
     flat (foldl tadd acc ts) =
       map (\<lambda>j. flat acc ! j + (\<Sum>i<length ts. flat (ts ! i) ! j)) [0..<prod_list s]"
  using assms
proof (induction ts arbitrary: acc)
  case Nil
  then show ?case
    by (auto simp: length_flat intro!: nth_equalityI)
next
  case (Cons t ts)
  then have t: "has_shape s t" and ts: "\<forall>t\<in>set ts. has_shape s t"
    by simp_all
  from tadd_same_shape [OF Cons.prems(1) t]
  have shape: "has_shape s (tadd acc t)"
    and fl: "flat (tadd acc t) = map2 (+) (flat acc) (flat t)"
    by simp_all
  have "flat (tadd acc t) ! j + (\<Sum>i<length ts. flat (ts ! i) ! j) =
      flat acc ! j + (\<Sum>i<length (t # ts). flat ((t # ts) ! i) ! j)"
    if "j < prod_list s" for j
    using that length_flat [OF Cons.prems(1)] length_flat [OF t]
    by (simp add: fl sum.lessThan_Suc_shift add.assoc del: sum.lessThan_Suc)
  then show ?case
    using Cons.IH [OF shape ts] by simp
qed

subsection \<open>Joining nested arrays along a dimension\<close>

lemma nth_concat_offset:
  "i < length xss \<Longrightarrow> j < length (xss ! i) \<Longrightarrow>
   concat xss ! (sum_list (map length (take i xss)) + j) = xss ! i ! j"
proof (induction xss arbitrary: i)
  case Nil
  then show ?case by simp
next
  case (Cons xs xss)
  show ?case
  proof (cases i)
    case 0
    with Cons.prems show ?thesis by (simp add: nth_append)
  next
    case (Suc i')
    with Cons.prems Cons.IH [of i'] show ?thesis
      by (simp add: nth_append add.assoc)
  qed
qed

lemma length_concat_offset:
  "i < length xss \<Longrightarrow> j < length (xss ! i) \<Longrightarrow>
   sum_list (map length (take i xss)) + j < length (concat xss)"
proof (induction xss arbitrary: i)
  case Nil
  then show ?case by simp
next
  case (Cons xs xss)
  show ?case
  proof (cases i)
    case 0
    with Cons.prems show ?thesis by simp
  next
    case (Suc i')
    with Cons.prems Cons.IH [of i'] show ?thesis
      by simp
  qed
qed

lemma has_shape_Cons_iff:
  "has_shape (n # ns) t = (\<exists>ts. t = Arr ts \<and> length ts = n \<and> (\<forall>u\<in>set ts. has_shape ns u))"
  by (cases t) (auto simp: list_all_iff)

lemma tget_Cons_Some:
  "tget t (j # idx) = Some x \<Longrightarrow> j < length (rows t) \<and> tget (rows t ! j) idx = Some x"
  by (cases t) (auto split: if_splits)

lemma rows_shape:
  assumes "has_shape s t" and "s \<noteq> []"
  shows "length (rows t) = hd s" and "\<forall>u\<in>set (rows t). has_shape (tl s) u"
  using assms by (cases s; auto simp: has_shape_Cons_iff)+

lemma list_update_hd_tl_0: "s \<noteq> [] \<Longrightarrow> s[0 := v] = v # tl s"
  by (cases s) simp_all

lemma list_update_hd_tl_Suc: "s \<noteq> [] \<Longrightarrow> s[Suc k := v] = hd s # (tl s)[k := v]"
  by (cases s) simp_all

lemma tget_Some_length: "has_shape s t \<Longrightarrow> tget t idx = Some x \<Longrightarrow> length idx = length s"
proof (induction s arbitrary: t idx)
  case Nil
  then show ?case by (cases t; cases idx) simp_all
next
  case (Cons n ns)
  then obtain ts where t: "t = Arr ts" and ts: "\<forall>u\<in>set ts. has_shape ns u"
    by (auto simp: has_shape_Cons_iff)
  with Cons.prems(2) obtain j idx' where idx: "idx = j # idx'" "j < length ts"
    "tget (ts ! j) idx' = Some x"
    by (cases idx) (auto split: if_splits)
  with ts Cons.IH [of "ts ! j" idx'] show ?case by simp
qed

text \<open>
  The inputs of a join along dimension \<open>k\<close>: arrays with their shapes, all of rank \<open>r\<close>,
  agreeing with the first one outside dimension \<open>k\<close>. The join has the first shape with
  the extent at \<open>k\<close> replaced by the sum of the extents, and it holds the elements of
  input \<open>i\<close> moved along dimension \<open>k\<close> by the extents of the inputs before \<open>i\<close>.
\<close>

lemma concat_inputs_rows:
  assumes "length shapes = length ts"
    and "\<forall>i<length ts. has_shape (shapes ! i) (ts ! i)"
    and "0 < r" and "\<forall>s\<in>set shapes. length s = r"
    and "i < length ts"
  shows "length (rows (ts ! i)) = shapes ! i ! 0"
    and "\<forall>u\<in>set (rows (ts ! i)). has_shape (tl (shapes ! i)) u"
proof -
  from assms have in_set: "shapes ! i \<in> set shapes" by simp
  with assms(3,4) have ne: "shapes ! i \<noteq> []" by auto
  from assms(2,5) have "has_shape (shapes ! i) (ts ! i)" by simp
  from rows_shape [OF this ne] ne
  show "length (rows (ts ! i)) = shapes ! i ! 0"
    and "\<forall>u\<in>set (rows (ts ! i)). has_shape (tl (shapes ! i)) u"
    by (simp_all add: hd_conv_nth)
qed

lemma concat_inputs_step:
  assumes "ts \<noteq> []" and "length shapes = length ts"
    and "\<forall>i<length ts. has_shape (shapes ! i) (ts ! i)"
    and "Suc k < r" and "\<forall>s\<in>set shapes. length s = r"
    and "\<forall>s\<in>set shapes. \<forall>d<r. d \<noteq> Suc k \<longrightarrow> s ! d = hd shapes ! d"
    and "j < hd shapes ! 0"
  shows "map (\<lambda>t. rows t ! j) ts \<noteq> []"
    and "length (map tl shapes) = length (map (\<lambda>t. rows t ! j) ts)"
    and "\<forall>i<length (map (\<lambda>t. rows t ! j) ts).
           has_shape (map tl shapes ! i) (map (\<lambda>t. rows t ! j) ts ! i)"
    and "k < r - 1" and "\<forall>s\<in>set (map tl shapes). length s = r - 1"
    and "\<forall>s\<in>set (map tl shapes). \<forall>d<r - 1. d \<noteq> k \<longrightarrow> s ! d = hd (map tl shapes) ! d"
    and "map (\<lambda>s. s ! k) (map tl shapes) = map (\<lambda>s. s ! Suc k) shapes"
    and "hd (map tl shapes) = tl (hd shapes)"
proof -
  let ?s0 = "hd shapes"
  note len = assms(5) and agr = assms(6)
  have shapes_ne: "shapes \<noteq> []"
    using assms(1,2) by auto
  then have s0: "?s0 \<in> set shapes" by simp
  have r: "0 < r" using assms(4) by simp
  show "map (\<lambda>t. rows t ! j) ts \<noteq> []" using assms(1) by simp
  show "length (map tl shapes) = length (map (\<lambda>t. rows t ! j) ts)" using assms(2) by simp
  show "\<forall>i<length (map (\<lambda>t. rows t ! j) ts).
      has_shape (map tl shapes ! i) (map (\<lambda>t. rows t ! j) ts ! i)"
  proof (intro allI impI)
    fix i assume "i < length (map (\<lambda>t. rows t ! j) ts)"
    then have i: "i < length ts" by simp
    with assms(2) have in_set: "shapes ! i \<in> set shapes" by simp
    have "shapes ! i ! 0 = ?s0 ! 0"
      using agr in_set assms(4) by auto
    with concat_inputs_rows [OF assms(2,3) r len i] assms(7)
    have "has_shape (tl (shapes ! i)) (rows (ts ! i) ! j)" by simp
    with i assms(2) show "has_shape (map tl shapes ! i) (map (\<lambda>t. rows t ! j) ts ! i)"
      by simp
  qed
  show "k < r - 1" using assms(4) by simp
  show "\<forall>s\<in>set (map tl shapes). length s = r - 1" using len by simp
  show "hd (map tl shapes) = tl ?s0" using shapes_ne by (simp add: hd_map)
  show "\<forall>s\<in>set (map tl shapes). \<forall>d<r - 1. d \<noteq> k \<longrightarrow> s ! d = hd (map tl shapes) ! d"
  proof (intro ballI allI impI)
    fix s d assume "s \<in> set (map tl shapes)" and d: "d < r - 1" "d \<noteq> k"
    then obtain s' where s': "s' \<in> set shapes" "s = tl s'" by auto
    from d have "Suc d < r" "Suc d \<noteq> Suc k" by auto
    with agr s'(1) have "s' ! Suc d = ?s0 ! Suc d"
      by blast
    moreover have "tl s' ! d = s' ! Suc d" "tl ?s0 ! d = ?s0 ! Suc d"
      using len s'(1) s0 d by (simp_all add: nth_tl)
    ultimately show "s ! d = hd (map tl shapes) ! d"
      using s'(2) shapes_ne by (simp add: hd_map)
  qed
  have "s \<in> set shapes \<Longrightarrow> tl s ! k = s ! Suc k" for s
    using len assms(4) by (simp add: nth_tl)
  then show "map (\<lambda>s. s ! k) (map tl shapes) = map (\<lambda>s. s ! Suc k) shapes"
    by simp
qed

lemma concat_inputs_tl:
  assumes "0 < r" and "\<forall>s\<in>set shapes. length s = r"
    and "\<forall>s\<in>set shapes. \<forall>d<r. d \<noteq> 0 \<longrightarrow> s ! d = hd shapes ! d"
    and "s \<in> set shapes"
  shows "tl s = tl (hd shapes)"
proof (rule nth_equalityI)
  from assms(4) have "shapes \<noteq> []" by auto
  then have s0: "hd shapes \<in> set shapes" by simp
  show "length (tl s) = length (tl (hd shapes))"
    using assms(2,4) s0 by simp
  fix d assume "d < length (tl s)"
  then have d: "Suc d < r" using assms(2,4) by auto
  then have "s ! Suc d = hd shapes ! Suc d"
    using assms(3,4) by blast
  then show "tl s ! d = tl (hd shapes) ! d"
    using d assms(2,4) s0 by (simp add: nth_tl)
qed

lemma concat_inputs_lengths:
  assumes "length shapes = length ts"
    and "\<forall>i<length ts. has_shape (shapes ! i) (ts ! i)"
    and "0 < r" and "\<forall>s\<in>set shapes. length s = r"
  shows "map (\<lambda>t. length (rows t)) ts = map (\<lambda>s. s ! 0) shapes"
  using assms(1) concat_inputs_rows(1) [OF assms]
  by (auto intro!: nth_equalityI)

lemma concat_along_shape:
  assumes "ts \<noteq> []" and "length shapes = length ts"
    and "\<forall>i<length ts. has_shape (shapes ! i) (ts ! i)"
    and "k < r" and "\<forall>s\<in>set shapes. length s = r"
    and "\<forall>s\<in>set shapes. \<forall>d<r. d \<noteq> k \<longrightarrow> s ! d = hd shapes ! d"
  shows "has_shape ((hd shapes)[k := sum_list (map (\<lambda>s. s ! k) shapes)]) (concat_along k ts)"
  using assms
proof (induction k arbitrary: ts shapes r)
  case 0
  let ?s0 = "hd shapes"
  have shapes_ne: "shapes \<noteq> []"
    using "0.prems"(1,2) by auto
  then have s0: "?s0 \<in> set shapes" by simp
  with "0.prems"(4,5) have s0_ne: "?s0 \<noteq> []" by auto
  have "length (concat (map rows ts)) = sum_list (map (\<lambda>s. s ! 0) shapes)"
    using concat_inputs_lengths [OF "0.prems"(2,3,4,5)]
    by (simp add: length_concat comp_def)
  moreover have "\<forall>u\<in>set (concat (map rows ts)). has_shape (tl ?s0) u"
  proof
    fix u assume "u \<in> set (concat (map rows ts))"
    then obtain t where "t \<in> set ts" and u: "u \<in> set (rows t)" by auto
    then obtain i where i: "i < length ts" "t = ts ! i" by (auto simp: in_set_conv_nth)
    with "0.prems"(2) have "shapes ! i \<in> set shapes" by simp
    from concat_inputs_tl [OF "0.prems"(4,5,6) this]
      concat_inputs_rows(2) [OF "0.prems"(2,3,4,5) i(1)] u i(2)
    show "has_shape (tl ?s0) u" by simp
  qed
  ultimately show ?case
    using s0_ne by (simp add: list_update_hd_tl_0 list_all_iff)
next
  case (Suc k)
  let ?s0 = "hd shapes"
  have shapes_ne: "shapes \<noteq> []"
    using Suc.prems(1,2) by auto
  then have s0: "?s0 \<in> set shapes" by simp
  with Suc.prems(4,5) have s0_ne: "?s0 \<noteq> []" by auto
  have r: "0 < r" using Suc.prems(4) by simp
  have "length (rows (ts ! 0)) = shapes ! 0 ! 0"
    using concat_inputs_rows(1) [OF Suc.prems(2,3) r Suc.prems(5), of 0] Suc.prems(1) by simp
  then have n: "length (rows (hd ts)) = ?s0 ! 0"
    using Suc.prems(1) shapes_ne by (simp add: hd_conv_nth)
  have "has_shape ((tl ?s0)[k := sum_list (map (\<lambda>s. s ! Suc k) shapes)])
      (concat_along k (map (\<lambda>t. rows t ! j) ts))" if "j < ?s0 ! 0" for j
  proof -
    note step = concat_inputs_step [OF Suc.prems that]
    from Suc.IH [OF step(1-6)] show ?thesis
      by (simp only: step(7,8))
  qed
  then show ?case
    using n s0_ne
    by (simp add: list_update_hd_tl_Suc list_all_iff hd_conv_nth)
qed

lemma concat_along_tget:
  assumes "ts \<noteq> []" and "length shapes = length ts"
    and "\<forall>i<length ts. has_shape (shapes ! i) (ts ! i)"
    and "k < r" and "\<forall>s\<in>set shapes. length s = r"
    and "\<forall>s\<in>set shapes. \<forall>d<r. d \<noteq> k \<longrightarrow> s ! d = hd shapes ! d"
    and "i < length ts" and "tget (ts ! i) idx = Some x"
  shows "tget (concat_along k ts)
      (idx[k := sum_list (map (\<lambda>s. s ! k) (take i shapes)) + idx ! k]) = Some x"
  using assms
proof (induction k arbitrary: ts shapes r idx)
  case 0
  from "0.prems"(3,7) have hs: "has_shape (shapes ! i) (ts ! i)" by simp
  from "0.prems"(2,7) have "shapes ! i \<in> set shapes" by simp
  with "0.prems"(5) have "length (shapes ! i) = r" by simp
  with tget_Some_length [OF hs "0.prems"(8)] have "length idx = r" by simp
  with "0.prems"(4) obtain j idx' where idx: "idx = j # idx'"
    by (cases idx) auto
  from tget_Cons_Some [OF "0.prems"(8) [unfolded idx]]
  have j: "j < length (rows (ts ! i))" and x: "tget (rows (ts ! i) ! j) idx' = Some x"
    by simp_all
  let ?xss = "map rows ts"
  have "map length (take i ?xss) = map (\<lambda>s. s ! 0) (take i shapes)"
    using arg_cong [OF concat_inputs_lengths [OF "0.prems"(2,3,4,5)], of "take i"]
    by (simp add: take_map comp_def)
  then have off: "sum_list (map (\<lambda>s. s ! 0) (take i shapes)) = sum_list (map length (take i ?xss))"
    by (simp only:)
  have i: "i < length ?xss" "j < length (?xss ! i)"
    using "0.prems"(7) j by simp_all
  from nth_concat_offset [OF i] length_concat_offset [OF i] x
  show ?case
    using "0.prems"(7) by (simp add: idx off)
next
  case (Suc k)
  let ?s0 = "hd shapes"
  have shapes_ne: "shapes \<noteq> []"
    using Suc.prems(1,2) by auto
  have r: "0 < r" using Suc.prems(4) by simp
  from Suc.prems(3,7) have hs: "has_shape (shapes ! i) (ts ! i)" by simp
  from Suc.prems(2,7) have "shapes ! i \<in> set shapes" by simp
  with Suc.prems(5) have "length (shapes ! i) = r" by simp
  with tget_Some_length [OF hs Suc.prems(8)] have "length idx = r" by simp
  with r obtain j idx' where idx: "idx = j # idx'"
    by (cases idx) auto
  from tget_Cons_Some [OF Suc.prems(8) [unfolded idx]]
  have j: "j < length (rows (ts ! i))" and x: "tget (rows (ts ! i) ! j) idx' = Some x"
    by simp_all
  have "length (rows (ts ! 0)) = shapes ! 0 ! 0"
    using concat_inputs_rows(1) [OF Suc.prems(2,3) r Suc.prems(5), of 0] Suc.prems(1) by simp
  then have n: "length (rows (hd ts)) = ?s0 ! 0"
    using Suc.prems(1) shapes_ne by (simp add: hd_conv_nth)
  from Suc.prems(2,7) have in_set: "shapes ! i \<in> set shapes" by simp
  have "shapes ! i ! 0 = ?s0 ! 0"
    using Suc.prems(4,6) in_set by auto
  with j concat_inputs_rows(1) [OF Suc.prems(2,3) r Suc.prems(5,7)]
  have j': "j < ?s0 ! 0" by simp
  note step = concat_inputs_step [OF Suc.prems(1-6) j']
  have i': "i < length (map (\<lambda>t. rows t ! j) ts)"
    using Suc.prems(7) by simp
  have x': "tget (map (\<lambda>t. rows t ! j) ts ! i) idx' = Some x"
    using x Suc.prems(7) by simp
  have "map (\<lambda>s. s ! k) (take i (map tl shapes)) = map (\<lambda>s. s ! Suc k) (take i shapes)"
    using arg_cong [OF step(7), of "take i"] by (simp add: take_map)
  then have off: "sum_list (map (\<lambda>s. s ! k) (take i (map tl shapes))) =
      sum_list (map (\<lambda>s. s ! Suc k) (take i shapes))"
    by (simp only:)
  from Suc.IH [OF step(1-6) i' x']
  show ?case
    using j' n by (simp add: idx off)
qed

subsection \<open>\<^verbatim>\<open>ConcatLayer.get_output_for\<close>\<close>

lemma agree_except_nat:
  assumes "agree_except ax (map (map int) shapes)"
  shows "\<exists>k. py_norm (length (hd shapes)) ax = Some k \<and> shapes \<noteq> [] \<and>
     k < length (hd shapes) \<and> (\<forall>s\<in>set shapes. length s = length (hd shapes)) \<and>
     (\<forall>s\<in>set shapes. \<forall>d<length (hd shapes). d \<noteq> k \<longrightarrow> s ! d = hd shapes ! d)"
proof -
  from assms obtain first rest where shapes: "shapes = first # rest"
    by (cases shapes) (simp_all add: agree_except_def)
  from assms obtain k where k: "py_norm (length first) ax = Some k"
    and raw: "list_all (\<lambda>s. length s = length first \<and>
        list_all (\<lambda>i. i = k \<or> s ! i = map int first ! i) [0..<length first])
          (map (map int) rest)"
    by (simp add: agree_except_def shapes split: option.splits)
  from raw have raw': "\<forall>s'\<in>set (map (map int) rest). length s' = length first \<and>
      (\<forall>i\<in>set [0..<length first]. i = k \<or> s' ! i = map int first ! i)"
    unfolding list_all_iff .
  have rest: "\<forall>s\<in>set rest. length s = length first \<and>
        (\<forall>i<length first. i = k \<or> s ! i = first ! i)"
  proof (intro ballI conjI allI impI)
    fix s assume "s \<in> set rest"
    then have "map int s \<in> set (map (map int) rest)" by simp
    with raw' have c: "length (map int s) = length first"
      and d: "\<forall>i\<in>set [0..<length first]. i = k \<or> map int s ! i = map int first ! i"
      by blast+
    from c show len: "length s = length first" by simp
    fix i assume i: "i < length first"
    then have "i \<in> set [0..<length first]" by simp
    with d have "i = k \<or> map int s ! i = map int first ! i" by blast
    then show "i = k \<or> s ! i = first ! i"
      using i len by auto
  qed
  have "k < length first" using k by (rule py_norm_less)
  then have "k < length (hd shapes)" using shapes by simp
  moreover have "py_norm (length (hd shapes)) ax = Some k" using shapes k by simp
  moreover have "shapes \<noteq> []" using shapes by simp
  moreover have "\<forall>s\<in>set shapes. length s = length (hd shapes)" using shapes rest by auto
  moreover have "\<forall>s\<in>set shapes. \<forall>d<length (hd shapes). d \<noteq> k \<longrightarrow> s ! d = hd shapes ! d"
    using shapes rest by auto
  ultimately show ?thesis
    by blast
qed

lemma int_sum_list: "int (sum_list (map f xs)) = sum_list (map (\<lambda>x. int (f x)) xs)"
  by (induction xs) simp_all

lemma get_output_shape_for_dims:
  assumes "shapes \<noteq> []" and "py_norm (length (hd shapes)) (axis self) = Some k"
    and "\<forall>s\<in>set shapes. length s = length (hd shapes)"
  shows "ConcatLayer_get_output_shape_for self (map (map int) shapes) =
     Inr (map int ((hd shapes)[k := sum_list (map (\<lambda>s. s ! k) shapes)]))"
proof -
  let ?ishapes = "map (map int) shapes"
  have norm: "py_norm (length s) (axis self) = Some k" if "s \<in> set ?ishapes" for s
    using that assms(2,3) by auto
  then have valid: "axis_valid (axis self) ?ishapes"
    by (auto simp: axis_valid_def list_all_iff)
  have k: "k < length (hd shapes)" using assms(2) by (rule py_norm_less)
  have "map (\<lambda>s. s ! the (py_norm (length s) (axis self))) ?ishapes =
      map (\<lambda>s. int (s ! k)) shapes"
    using assms(2,3) k by (auto simp: comp_def)
  then have "sum_list (map (\<lambda>s. s ! the (py_norm (length s) (axis self))) ?ishapes) =
      int (sum_list (map (\<lambda>s. s ! k) shapes))"
    by (simp only: int_sum_list)
  moreover have "hd ?ishapes = map int (hd shapes)"
    using assms(1) by (simp add: hd_map)
  moreover have "ConcatLayer_get_output_shape_for self ?ishapes =
     Inr ((hd ?ishapes)[the (py_norm (length (hd ?ishapes)) (axis self)) :=
        sum_list (map (\<lambda>s. s ! the (py_norm (length s) (axis self))) ?ishapes)])"
    using assms(1) valid by (intro get_output_shape_for_valid) simp_all
  ultimately show ?thesis
    using assms(2) by (simp add: map_update)
qed

lemma concatenate_agree:
  assumes "list_all well_formed inputs"
    and "agree_except ax (map (\<lambda>t. map int (dims t)) inputs)"
    and "py_norm (length (dims (hd inputs))) ax = Some k"
  shows "concatenate inputs ax =
     Some \<lparr>dims = (dims (hd inputs))[k := sum_list (map (\<lambda>t. dims t ! k) inputs)],
           elems = concat_along k (map elems inputs)\<rparr>"
  unfolding concatenate_def using assms by simp

lemma get_output_shape_for_tensors:
  assumes "inputs \<noteq> []" and "py_norm (length (dims (hd inputs))) (axis self) = Some k"
    and "\<forall>t\<in>set inputs. length (dims t) = length (dims (hd inputs))"
  shows "ConcatLayer_get_output_shape_for self (map (\<lambda>t. map int (dims t)) inputs) =
     Inr (map int ((dims (hd inputs))[k := sum_list (map (\<lambda>t. dims t ! k) inputs)]))"
proof -
  have hd: "hd (map dims inputs) = dims (hd inputs)"
    using assms(1) by (simp add: hd_map)
  have 1: "map dims inputs \<noteq> []" using assms(1) by simp
  have 2: "py_norm (length (hd (map dims inputs))) (axis self) = Some k"
    using assms(2) by (simp only: hd)
  have 3: "\<forall>s\<in>set (map dims inputs). length s = length (hd (map dims inputs))"
    using assms(3) by (simp add: hd)
  have "map (map int) (map dims inputs) = map (\<lambda>t. map int (dims t)) inputs"
    by simp
  moreover have "sum_list (map (\<lambda>s. s ! k) (map dims inputs)) =
      sum_list (map (\<lambda>t. dims t ! k) inputs)"
    by (simp add: comp_def)
  ultimately show ?thesis
    using get_output_shape_for_dims [OF 1 2 3] by (simp only: hd)
qed

text \<open>
  C6. For a non-empty list of well-formed input tensors whose shapes agree on every
  dimension except the layer's axis (counted from the end when negative),
  \<^verbatim>\<open>ConcatLayer.get_output_for\<close> returns the concatenation of the inputs along the axis
  in list order: the result is well formed, its shape is the first input's with the
  extent at the axis replaced by the sum of the inputs' extents there (the shape
  \<^verbatim>\<open>get_output_shape_for\<close> computes), and the element of input \<open>i\<close> at an index is the
  element of the result at that index moved along the axis by the extents of the inputs
  before \<open>i\<close>. For \<open>A = [[1, 2], [3, 4]]\<close>, \<open>B = [[5, 6], [7, 8]]\<close> and axis 0 the result
  is \<open>[[1, 2], [3, 4], [5, 6], [7, 8]]\<close>.
\<close>

theorem concat_joins_inputs:
  "(list_all well_formed inputs \<and>
      agree_except (axis self) (map (\<lambda>t. map int (dims t)) inputs) \<longrightarrow>
    (\<exists>k out. py_norm (length (dims (hd inputs))) (axis self) = Some k \<and>
       ConcatLayer_get_output_for self inputs = Some out \<and>
       well_formed out \<and>
       dims out = (dims (hd inputs))[k := sum_list (map (\<lambda>t. dims t ! k) inputs)] \<and>
       ConcatLayer_get_output_shape_for self (map (\<lambda>t. map int (dims t)) inputs) =
         Inr (map int (dims out)) \<and>
       (\<forall>i<length inputs. \<forall>idx x. tget (elems (inputs ! i)) idx = Some x \<longrightarrow>
          tget (elems out)
            (idx[k := sum_list (map (\<lambda>t. dims t ! k) (take i inputs)) + idx ! k]) = Some x))) \<and>
   ConcatLayer_get_output_for (ConcatLayer_init [l1, l2] 0)
     [matrix [[1, 2], [3, 4]], matrix [[5, 6], [7, 8 :: int]]] =
     Some (matrix [[1, 2], [3, 4], [5, 6], [7, 8]])"
proof (intro conjI impI)
  assume asm: "list_all well_formed inputs \<and>
    agree_except (axis self) (map (\<lambda>t. map int (dims t)) inputs)"
  let ?shapes = "map dims inputs" and ?ts = "map elems inputs"
  from asm have wf: "list_all well_formed inputs"
    and agree0: "agree_except (axis self) (map (\<lambda>t. map int (dims t)) inputs)"
    by blast+
  have "map (map int) ?shapes = map (\<lambda>t. map int (dims t)) inputs"
    by simp
  with agree0 have agree: "agree_except (axis self) (map (map int) ?shapes)"
    by (simp only:)
  from agree_except_nat [OF agree] obtain k where
    k0: "py_norm (length (hd ?shapes)) (axis self) = Some k" and ne: "?shapes \<noteq> []"
    and less: "k < length (hd ?shapes)"
    and len: "\<forall>s\<in>set ?shapes. length s = length (hd ?shapes)"
    and agr: "\<forall>s\<in>set ?shapes. \<forall>d<length (hd ?shapes). d \<noteq> k \<longrightarrow> s ! d = hd ?shapes ! d"
    by blast
  from ne have inputs: "inputs \<noteq> []" by simp
  then have hd: "hd ?shapes = dims (hd inputs)" by (simp add: hd_map)
  from k0 have k: "py_norm (length (dims (hd inputs))) (axis self) = Some k"
    by (simp only: hd)
  from len have len': "\<forall>t\<in>set inputs. length (dims t) = length (dims (hd inputs))"
    by (simp add: hd)
  have ts: "?ts \<noteq> []" "length ?shapes = length ?ts"
    using inputs by simp_all
  have each: "\<forall>i<length ?ts. has_shape (?shapes ! i) (?ts ! i)"
    using wf by (simp add: list_all_length well_formed_def)
  define out where "out = \<lparr>dims = (dims (hd inputs))[k := sum_list (map (\<lambda>t. dims t ! k) inputs)],
      elems = concat_along k ?ts\<rparr>"
  have dims_out: "dims out = (dims (hd inputs))[k := sum_list (map (\<lambda>t. dims t ! k) inputs)]"
    and elems_out: "elems out = concat_along k ?ts"
    by (simp_all add: out_def)
  have sums: "sum_list (map (\<lambda>s. s ! k) ?shapes) = sum_list (map (\<lambda>t. dims t ! k) inputs)"
    by (simp add: comp_def)
  have run: "ConcatLayer_get_output_for self inputs = Some out"
    unfolding ConcatLayer_get_output_for_def out_def
    using wf agree0 k by (rule concatenate_agree)
  have "has_shape ((hd ?shapes)[k := sum_list (map (\<lambda>s. s ! k) ?shapes)]) (concat_along k ?ts)"
    using ts each less len agr by (rule concat_along_shape)
  then have wf_out: "well_formed out"
    by (simp only: sums hd well_formed_def dims_out elems_out)
  have shape: "ConcatLayer_get_output_shape_for self (map (\<lambda>t. map int (dims t)) inputs) =
      Inr (map int (dims out))"
    using get_output_shape_for_tensors [OF inputs k len'] by (simp only: dims_out)
  have elems: "tget (elems out)
      (idx[k := sum_list (map (\<lambda>t. dims t ! k) (take i inputs)) + idx ! k]) = Some x"
    if "i < length inputs" "tget (elems (inputs ! i)) idx = Some x" for i idx x
  proof -
    from that have i: "i < length ?ts" and x: "tget (?ts ! i) idx = Some x" by simp_all
    have "sum_list (map (\<lambda>s. s ! k) (take i ?shapes)) =
        sum_list (map (\<lambda>t. dims t ! k) (take i inputs))"
      by (simp add: take_map comp_def)
    with concat_along_tget [OF ts each less len agr i x] show ?thesis
      by (simp only: elems_out)
  qed
  from k run wf_out dims_out shape elems
  show "\<exists>k out. py_norm (length (dims (hd inputs))) (axis self) = Some k \<and>
       ConcatLayer_get_output_for self inputs = Some out \<and>
       well_formed out \<and>
       dims out = (dims (hd inputs))[k := sum_list (map (\<lambda>t. dims t ! k) inputs)] \<and>
       ConcatLayer_get_output_shape_for self (map (\<lambda>t. map int (dims t)) inputs) =
         Inr (map int (dims out)) \<and>
       (\<forall>i<length inputs. \<forall>idx x. tget (elems (inputs ! i)) idx = Some x \<longrightarrow>
          tget (elems out)
            (idx[k := sum_list (map (\<lambda>t. dims t ! k) (take i inputs)) + idx ! k]) = Some x)"
    by blast
next
  show "ConcatLayer_get_output_for (ConcatLayer_init [l1, l2] 0)
     [matrix [[1, 2], [3, 4]], matrix [[5, 6], [7, 8 :: int]]] =
     Some (matrix [[1, 2], [3, 4], [5, 6], [7, 8]])"
    by code_simp
qed

theorem concat_joins_inputs_witness:
  "list_all well_formed [matrix [[1, 2], [3, 4]], matrix [[5], [6 :: int]]] \<and>
   agree_except (- 1) (map (\<lambda>t. map int (dims t)) [matrix [[1, 2], [3, 4]], matrix [[5], [6 :: int]]]) \<and>
   ConcatLayer_get_output_for (ConcatLayer_init [(), ()] (- 1))
     [matrix [[1, 2], [3, 4]], matrix [[5], [6 :: int]]] =
     Some (matrix [[1, 2, 5], [3, 4, 6]]) \<and>
   well_formed (matrix [[1, 2, 5], [3, 4, 6 :: int]]) \<and>
   ConcatLayer_get_output_shape_for (ConcatLayer_init [(), ()] (- 1)) [[2, 2], [2, 1]] = Inr [2, 3]"
proof -
  let ?A = "matrix [[1, 2], [3, 4 :: int]]" and ?B = "matrix [[5], [6 :: int]]"
  let ?self = "ConcatLayer_init [(), ()] (- 1)"
  have h1: "list_all well_formed [?A, ?B]"
    by code_simp
  have h2: "agree_except (axis ?self) (map (\<lambda>t. map int (dims t)) [?A, ?B])"
    by code_simp
  have ax: "axis ?self = - 1"
    by (simp add: ConcatLayer_init_def)
  have val: "ConcatLayer_get_output_for ?self [?A, ?B] = Some (matrix [[1, 2, 5], [3, 4, 6]])"
    by code_simp
  have dims: "map (\<lambda>t. map int (dims t)) [?A, ?B] = [[2, 2], [2, 1]]"
    "map int (dims (matrix [[1, 2, 5], [3, 4, 6 :: int]])) = [2, 3]"
    by (simp_all add: matrix_def)
  from concat_joins_inputs [of "[?A, ?B]" ?self "()" "()"] h1 h2
  obtain out where "ConcatLayer_get_output_for ?self [?A, ?B] = Some out" "well_formed out"
    "ConcatLayer_get_output_shape_for ?self (map (\<lambda>t. map int (dims t)) [?A, ?B]) =
       Inr (map int (dims out))"
    by blast
  with val have "well_formed (matrix [[1, 2, 5], [3, 4, 6 :: int]])"
    "ConcatLayer_get_output_shape_for ?self (map (\<lambda>t. map int (dims t)) [?A, ?B]) =
       Inr (map int (dims (matrix [[1, 2, 5], [3, 4, 6 :: int]])))"
    by auto
  then have "well_formed (matrix [[1, 2, 5], [3, 4, 6 :: int]])"
    "ConcatLayer_get_output_shape_for ?self [[2, 2], [2, 1]] = Inr [2, 3]"
    by (simp_all only: dims)
  with h1 h2 val show ?thesis
    by (simp only: ax)
qed

subsection \<open>\<^verbatim>\<open>ElemwiseSumLayer.get_output_for\<close>\<close>

text \<open>The loop on tensor values, and the weighted sum.\<close>

lemma tscale_one: "tscale (1 :: 'a :: monoid_mult) a = a"
  by (induction a) (simp_all add: map_idI)

lemma tensor_mul_one: "tensor_mul (1 :: 'a :: monoid_mult) t = t"
  by (simp add: tensor_mul_def tscale_one)

lemma sum_loop_Some:
  fixes out :: "'a :: {monoid_mult, plus} tensor"
  shows "sum_loop (Some out) ps = Some (foldl tensor_add out (map (\<lambda>(c, x). tensor_mul c x) ps))"
  by (induction ps arbitrary: out) (auto simp: tensor_mul_one Let_def)

lemma get_output_for_weighted_sum:
  fixes self :: "('l, 'a :: {monoid_mult, plus}) ElemwiseSumLayer"
  shows "ElemwiseSumLayer_get_output_for self inputs = weighted_sum (coeffs self) inputs"
proof (cases "zip (coeffs self) inputs")
  case Nil
  then have "coeffs self = [] \<or> inputs = []"
    by (cases "coeffs self"; cases inputs) auto
  then have "weighted_sum (coeffs self) inputs = None"
    by (cases "coeffs self") auto
  then show ?thesis
    by (simp only: ElemwiseSumLayer_get_output_for_def Nil sum_loop.simps)
next
  case (Cons p ps)
  then obtain c cs x xs where *: "coeffs self = c # cs" "inputs = x # xs"
    by (cases "coeffs self"; cases inputs) auto
  then show ?thesis
    by (simp add: ElemwiseSumLayer_get_output_for_def sum_loop_Some tensor_mul_one Let_def)
qed

lemma weighted_nested:
  fixes cs :: "'a :: semiring_1 list"
  assumes "length cs = length xs" and "has_shape s x" and "\<forall>a\<in>set xs. has_shape s a"
  shows "has_shape s (foldl tadd (tscale c x) (map2 tscale cs xs)) \<and>
     flat (foldl tadd (tscale c x) (map2 tscale cs xs)) =
       map (\<lambda>j. \<Sum>i<Suc (length xs). flat ((x # xs) ! i) ! j * (c # cs) ! i) [0..<prod_list s]"
proof -
  let ?acc = "tscale c x" and ?ts = "map2 tscale cs xs"
  have acc: "has_shape s ?acc"
    using assms(2) by (simp add: has_shape_tscale)
  have ts: "\<forall>a\<in>set ?ts. has_shape s a"
    using assms(3) by (auto simp: has_shape_tscale dest: set_zip_rightD)
  have x: "length (flat x) = prod_list s"
    using assms(2) by (simp add: length_flat)
  have xs: "length (flat (xs ! i)) = prod_list s" if "i < length xs" for i
    using assms(3) that by (simp add: length_flat)
  have "flat ?acc ! j + (\<Sum>i<length ?ts. flat (?ts ! i) ! j) =
      (\<Sum>i<Suc (length xs). flat ((x # xs) ! i) ! j * (c # cs) ! i)"
    if "j < prod_list s" for j
    using that x xs assms(1)
    by (simp add: flat_tscale sum.lessThan_Suc_shift del: sum.lessThan_Suc)
  then have "map (\<lambda>j. flat ?acc ! j + (\<Sum>i<length ?ts. flat (?ts ! i) ! j)) [0..<prod_list s] =
      map (\<lambda>j. \<Sum>i<Suc (length xs). flat ((x # xs) ! i) ! j * (c # cs) ! i) [0..<prod_list s]"
    by simp
  then show ?thesis
    using foldl_tadd_same_shape [OF acc ts] by (simp only:)
qed

lemma foldl_tensor_add:
  "dims (foldl tensor_add acc ts) = dims acc \<and>
   elems (foldl tensor_add acc ts) = foldl tadd (elems acc) (map elems ts)"
  by (induction ts arbitrary: acc) (simp_all add: tensor_add_def)

lemma elems_map2_tensor_mul:
  "map elems (map2 tensor_mul cs xs) = map2 tscale cs (map elems xs)"
  by (induction cs xs rule: list_induct2') (simp_all add: tensor_mul_def)

text \<open>
  On tensor values of one shape the loop computes the weighted sum: the result has the
  inputs' shape, and each of its elements is the sum over \<open>i\<close> of the element of input
  \<open>i\<close> times coefficient \<open>i\<close>.
\<close>

lemma elemwise_sum_values:
  fixes self :: "('l, 'a :: semiring_1) ElemwiseSumLayer"
  assumes "inputs \<noteq> []" and "length (coeffs self) = length inputs"
    and "\<forall>t\<in>set inputs. well_formed t \<and> dims t = s"
  shows "\<exists>out. ElemwiseSumLayer_get_output_for self inputs = Some out \<and>
     weighted_sum (coeffs self) inputs = Some out \<and> well_formed out \<and> dims out = s \<and>
     flat (elems out) =
       map (\<lambda>j. \<Sum>i<length inputs. flat (elems (inputs ! i)) ! j * coeffs self ! i)
         [0..<prod_list s]"
proof -
  from assms(1,2) obtain c cs x xs where
    cs: "coeffs self = c # cs" and inputs: "inputs = x # xs" and len: "length cs = length xs"
    by (cases "coeffs self"; cases inputs) auto
  define out where "out = foldl tensor_add (tensor_mul c x) (map2 tensor_mul cs xs)"
  have run: "weighted_sum (coeffs self) inputs = Some out"
    by (simp add: cs inputs out_def)
  have dims_out: "dims out = s"
    using assms(3) inputs by (simp add: out_def foldl_tensor_add tensor_mul_def)
  have "elems out = foldl tadd (elems (tensor_mul c x)) (map elems (map2 tensor_mul cs xs))"
    by (simp only: out_def foldl_tensor_add)
  then have elems_out:
    "elems out = foldl tadd (tscale c (elems x)) (map2 tscale cs (map elems xs))"
    by (simp only: elems_map2_tensor_mul) (simp add: tensor_mul_def)
  have 1: "length cs = length (map elems xs)" using len by simp
  have 2: "has_shape s (elems x)"
    using assms(3) inputs by (auto simp: well_formed_def)
  have 3: "\<forall>a\<in>set (map elems xs). has_shape s a"
    using assms(3) inputs by (auto simp: well_formed_def)
  have nth: "(elems x # map elems xs) ! i = elems (inputs ! i)" if "i < length inputs" for i
    using that by (cases i) (simp_all add: inputs)
  have "(\<Sum>i<Suc (length (map elems xs)). flat ((elems x # map elems xs) ! i) ! j * (c # cs) ! i) =
      (\<Sum>i<length inputs. flat (elems (inputs ! i)) ! j * coeffs self ! i)" for j
    by (rule sum.cong) (simp_all add: nth cs inputs del: sum.lessThan_Suc nth_Cons_Suc)
  with weighted_nested [OF 1 2 3, of c]
  have "has_shape s (elems out)" and "flat (elems out) =
      map (\<lambda>j. \<Sum>i<length inputs. flat (elems (inputs ! i)) ! j * coeffs self ! i)
        [0..<prod_list s]"
    by (simp_all only: elems_out)
  with run dims_out show ?thesis
    by (simp add: get_output_for_weighted_sum well_formed_def)
qed

text \<open>
  The loop on tensor objects without in-place operators: it only adds objects to the
  store, so every object the caller handed in is left as it was, and the value of the
  result is the result of the loop on values.
\<close>

lemma sum_loop_obj_fresh:
  assumes "\<forall>r\<in>set (map snd ps). r < length h"
    and "\<forall>r. output = Some r \<longrightarrow> r < length h"
  shows "\<exists>out new. sum_loop_obj False output ps h = (out, h @ new) \<and>
     (\<forall>r. out = Some r \<longrightarrow> r < length (h @ new)) \<and>
     deref (h @ new) out = sum_loop (deref h output) (map (\<lambda>(c, r). (c, h ! r)) ps)"
  using assms
proof (induction ps arbitrary: "output" h)
  case Nil
  then show ?case
    by (intro exI [of _ "output"] exI [of _ "[]"]) (simp add: deref_def)
next
  case (Cons p ps)
  obtain coeff input where p: "p = (coeff, input)" by (cases p)
  obtain input' h1 where 1: "(if coeff \<noteq> 1 then imul False input coeff h else (input, h)) = (input', h1)"
    by (cases "if coeff \<noteq> 1 then imul False input coeff h else (input, h)")
  obtain output' h2 where 2: "(case output of Some out \<Rightarrow> iadd False out input' h1
      | None \<Rightarrow> (input', h1)) = (output', h2)"
    by (cases "case output of Some out \<Rightarrow> iadd False out input' h1 | None \<Rightarrow> (input', h1)")
  have input: "input < length h" using Cons.prems(1) p by simp
  from 1 input obtain n1 where h1: "h1 = h @ n1" and input': "input' < length h1"
    and v1: "h1 ! input' = (if coeff \<noteq> 1 then tensor_mul coeff (h ! input) else h ! input)"
    by (cases "coeff \<noteq> 1") (auto simp: imul_def nth_append)
  from 2 h1 input' Cons.prems(2) obtain n2 where h2: "h2 = h @ n2" and output': "output' < length h2"
    and v2: "h2 ! output' = (case output of Some out \<Rightarrow> tensor_add (h ! out) (h1 ! input')
                               | None \<Rightarrow> h1 ! input')"
    by (cases "output") (auto simp: iadd_def nth_append)
  have refs: "\<forall>r\<in>set (map snd ps). r < length h2"
    using Cons.prems(1) h2 by auto
  from Cons.IH [of h2 "Some output'"] refs output'
  obtain out new where run: "sum_loop_obj False (Some output') ps h2 = (out, h2 @ new)"
    and bound: "\<forall>r. out = Some r \<longrightarrow> r < length (h2 @ new)"
    and val: "deref (h2 @ new) out =
        sum_loop (deref h2 (Some output')) (map (\<lambda>(c, r). (c, h2 ! r)) ps)"
    by auto
  have same: "map (\<lambda>(c, r). (c, h2 ! r)) ps = map (\<lambda>(c, r). (c, h ! r)) ps"
    using Cons.prems(1) h2 by (auto simp: nth_append)
  have "sum_loop_obj False output (p # ps) h = (out, h @ (n2 @ new))"
    using run 1 2 by (simp add: p h2)
  moreover have "deref (h @ (n2 @ new)) out =
      sum_loop (deref h output) (map (\<lambda>(c, r). (c, h ! r)) (p # ps))"
    using val v1 v2 by (cases "output") (simp_all add: p h2 same [unfolded h2] deref_def Let_def)
  moreover have "\<forall>r. out = Some r \<longrightarrow> r < length (h @ (n2 @ new))"
    using bound by (simp add: h2)
  ultimately show ?case by blast
qed

lemma zip_refs_values:
  "map (\<lambda>(c, r). (c, h ! r)) (zip cs inputs) = zip cs (map ((!) h) inputs)"
  by (induction cs inputs rule: list_induct2') simp_all

lemma elemwise_sum_obj_fresh:
  assumes "\<forall>r\<in>set inputs. r < length h"
  shows "\<exists>out new. ElemwiseSumLayer_get_output_for_obj False self inputs h = (out, h @ new) \<and>
     deref (h @ new) out = ElemwiseSumLayer_get_output_for self (map ((!) h) inputs)"
proof -
  have "\<forall>r\<in>set (map snd (zip (coeffs self) inputs)). r < length h"
    using assms by (auto dest: set_zip_rightD)
  from sum_loop_obj_fresh [OF this, of None]
  show ?thesis
    by (auto simp: ElemwiseSumLayer_get_output_for_obj_def ElemwiseSumLayer_get_output_for_def
          zip_refs_values deref_def)
qed

text \<open>
  The loop on tensor objects with in-place operators: it overwrites its first input, and
  every input with a coefficient other than 1. As long as the inputs are different
  objects, the value of the result is still the result of the loop on values.
\<close>

lemma values_cong:
  "(\<And>r. r \<in> set (map snd ps) \<Longrightarrow> g ! r = h ! r) \<Longrightarrow>
   map (\<lambda>(c, r). (c, g ! r)) ps = map (\<lambda>(c, r). (c, h ! r)) ps"
  by (induction ps) auto

lemma sum_loop_obj_inplace:
  assumes "out < length h" and "\<forall>r\<in>set (map snd ps). r < length h"
    and "out \<notin> set (map snd ps)" and "distinct (map snd ps)"
  shows "\<exists>h'. sum_loop_obj True (Some out) ps h = (Some out, h') \<and> length h' = length h \<and>
     Some (h' ! out) = sum_loop (Some (h ! out)) (map (\<lambda>(c, r). (c, h ! r)) ps)"
  using assms
proof (induction ps arbitrary: h)
  case Nil
  then show ?case by simp
next
  case (Cons p ps)
  obtain coeff input where p: "p = (coeff, input)" by (cases p)
  define v where "v = (if coeff \<noteq> 1 then tensor_mul coeff (h ! input) else h ! input)"
  define h1 where "h1 = (if coeff \<noteq> 1 then h[input := tensor_mul coeff (h ! input)] else h)"
  define h2 where "h2 = h1[out := tensor_add (h1 ! out) (h1 ! input)]"
  have input: "input < length h" "input \<noteq> out" "input \<notin> set (map snd ps)"
    using Cons.prems p by auto
  have h1: "h1 ! input = v" "h1 ! out = h ! out" "length h1 = length h"
    and h1_other: "\<And>r. r \<noteq> input \<Longrightarrow> h1 ! r = h ! r"
    using input Cons.prems(1) by (auto simp: h1_def v_def)
  have step: "sum_loop_obj True (Some out) (p # ps) h = sum_loop_obj True (Some out) ps h2"
    by (simp add: p imul_def iadd_def h1_def h2_def)
  have h2: "h2 ! out = tensor_add (h ! out) v" "length h2 = length h"
    and h2_other: "\<And>r. r \<noteq> out \<Longrightarrow> h2 ! r = h1 ! r"
    using h1 Cons.prems(1) by (simp_all add: h2_def)
  have other: "h2 ! r = h ! r" if "r \<in> set (map snd ps)" for r
  proof -
    from that Cons.prems(3,4) p input have "r \<noteq> out" "r \<noteq> input" by auto
    then show ?thesis by (simp add: h2_other h1_other)
  qed
  then have same: "map (\<lambda>(c, r). (c, h2 ! r)) ps = map (\<lambda>(c, r). (c, h ! r)) ps"
    by (rule values_cong)
  have "out < length h2" "\<forall>r\<in>set (map snd ps). r < length h2"
    "out \<notin> set (map snd ps)" "distinct (map snd ps)"
    using Cons.prems h2(2) by simp_all
  from Cons.IH [OF this]
  obtain h' where run: "sum_loop_obj True (Some out) ps h2 = (Some out, h')"
    and len: "length h' = length h2"
    and val: "Some (h' ! out) = sum_loop (Some (h2 ! out)) (map (\<lambda>(c, r). (c, h2 ! r)) ps)"
    by blast
  have "sum_loop (Some (h ! out)) (map (\<lambda>(c, r). (c, h ! r)) (p # ps)) =
      sum_loop (Some (tensor_add (h ! out) v)) (map (\<lambda>(c, r). (c, h ! r)) ps)"
    by (simp add: p Let_def v_def)
  with val have "Some (h' ! out) = sum_loop (Some (h ! out)) (map (\<lambda>(c, r). (c, h ! r)) (p # ps))"
    by (simp only: same h2(1))
  with run len h2(2) step show ?case
    by simp
qed

lemma elemwise_sum_obj_inplace:
  assumes "\<forall>r\<in>set inputs. r < length h" and "distinct inputs"
  shows "\<exists>out h'. ElemwiseSumLayer_get_output_for_obj True self inputs h = (out, h') \<and>
     length h' = length h \<and>
     deref h' out = ElemwiseSumLayer_get_output_for self (map ((!) h) inputs)"
proof (cases "zip (coeffs self) inputs")
  case Nil
  have "ElemwiseSumLayer_get_output_for self (map ((!) h) inputs) =
      sum_loop None (map (\<lambda>(c, r). (c, h ! r)) (zip (coeffs self) inputs))"
    by (simp only: ElemwiseSumLayer_get_output_for_def zip_refs_values)
  then have "ElemwiseSumLayer_get_output_for self (map ((!) h) inputs) = None"
    by (simp only: Nil list.map sum_loop.simps)
  moreover have "ElemwiseSumLayer_get_output_for_obj True self inputs h = (None, h)"
    by (simp only: ElemwiseSumLayer_get_output_for_obj_def Nil sum_loop_obj.simps)
  ultimately show ?thesis
    by (simp add: deref_def)
next
  case (Cons p ps)
  obtain coeff input where p: "p = (coeff, input)" by (cases p)
  have "distinct (map snd (zip (coeffs self) inputs))"
    "set (map snd (zip (coeffs self) inputs)) \<subseteq> set inputs"
    using assms(2) by (simp_all only: map_snd_zip_take distinct_take set_take_subset)
  then have "distinct (map snd (p # ps))" and sub: "set (map snd (p # ps)) \<subseteq> set inputs"
    by (simp_all only: Cons)
  then have input: "input < length h" "input \<notin> set (map snd ps)" "distinct (map snd ps)"
    and ps: "\<forall>r\<in>set (map snd ps). r < length h"
    using assms(1) p by auto
  define v where "v = (if coeff \<noteq> 1 then tensor_mul coeff (h ! input) else h ! input)"
  define h1 where "h1 = (if coeff \<noteq> 1 then h[input := tensor_mul coeff (h ! input)] else h)"
  have h1: "h1 ! input = v" "length h1 = length h"
    and h1_other: "\<And>r. r \<noteq> input \<Longrightarrow> h1 ! r = h ! r"
    using input(1) by (auto simp: h1_def v_def)
  have "h1 ! r = h ! r" if "r \<in> set (map snd ps)" for r
  proof -
    from that input(2) have "r \<noteq> input" by blast
    then show ?thesis by (rule h1_other)
  qed
  then have same: "map (\<lambda>(c, r). (c, h1 ! r)) ps = map (\<lambda>(c, r). (c, h ! r)) ps"
    by (rule values_cong)
  have step: "ElemwiseSumLayer_get_output_for_obj True self inputs h =
      sum_loop_obj True (Some input) ps h1"
    by (simp add: ElemwiseSumLayer_get_output_for_obj_def Cons p imul_def h1_def)
  have "input < length h1" "\<forall>r\<in>set (map snd ps). r < length h1"
    using input(1) ps h1(2) by simp_all
  from sum_loop_obj_inplace [OF this input(2,3)]
  obtain h' where run: "sum_loop_obj True (Some input) ps h1 = (Some input, h')"
    and len: "length h' = length h1"
    and val: "Some (h' ! input) =
      sum_loop (Some (h1 ! input)) (map (\<lambda>(c, r). (c, h1 ! r)) ps)"
    by blast
  have "ElemwiseSumLayer_get_output_for self (map ((!) h) inputs) =
      sum_loop None (map (\<lambda>(c, r). (c, h ! r)) (zip (coeffs self) inputs))"
    by (simp only: ElemwiseSumLayer_get_output_for_def zip_refs_values)
  also have "\<dots> = sum_loop None (map (\<lambda>(c, r). (c, h ! r)) (p # ps))"
    by (simp only: Cons)
  also have "\<dots> = sum_loop (Some v) (map (\<lambda>(c, r). (c, h ! r)) ps)"
    by (simp add: p Let_def v_def)
  also have "\<dots> = Some (h' ! input)"
    using val by (simp only: same h1(1))
  finally show ?thesis
    using run len h1(2) step by (simp add: deref_def)
qed




text \<open>
  C10. With an empty list of inputs the loop of \<^verbatim>\<open>ElemwiseSumLayer.get_output_for\<close>
  has nothing to run over and the method returns \<^verbatim>\<open>None\<close>, whatever the coefficients
  and whatever the tensor class; no object of the store is touched.
\<close>

theorem elemwise_sum_output_empty:
  "ElemwiseSumLayer_get_output_for self [] = None \<and>
   ElemwiseSumLayer_get_output_for_obj inplace self [] h = (None, h)"
  by (simp add: ElemwiseSumLayer_get_output_for_def ElemwiseSumLayer_get_output_for_obj_def)

end
